theory Spec2Isabelle
  imports Complex_Main "HOL-Library.AList" "HOL-Library.Sublist"
begin

section \<open>Shared vocabulary of the middleware\<close>

text \<open>
  An Express middleware either hands the request on (\<open>next()\<close>) or answers it with
  \<open>res.status(code).json({ error: message })\<close>. Only the status code and the text of
  the \<open>error\<close> field of the body are kept.
\<close>

datatype outcome = Next | Json nat string

section \<open>server/src/utils/auth.js: extractToken\<close>

text \<open>
  A JavaScript string is modelled as a \<^typ>\<open>string\<close>, one \<^typ>\<open>char\<close> per code unit
  below 256 (Node hands header values over as Latin-1 text). \<open>String.prototype.trim\<close>
  strips the ECMAScript white space and line terminators from both ends; the ones below
  256 are TAB, LF, VT, FF, CR, SPACE and NO-BREAK SPACE.
\<close>

definition is_js_space :: "char \<Rightarrow> bool" where
  "is_js_space c \<longleftrightarrow>
     c = CHR 0x09 \<or> c = CHR 0x0A \<or> c = CHR 0x0B \<or> c = CHR 0x0C \<or> c = CHR 0x0D \<or>
     c = CHR 0x20 \<or> c = CHR 0xA0"

definition trim :: "string \<Rightarrow> string" where
  "trim s = rev (dropWhile is_js_space (rev (dropWhile is_js_space s)))"

text \<open>\<open>s.startsWith(p)\<close> and \<open>s.substring(n)\<close>.\<close>

definition startsWith :: "string \<Rightarrow> string \<Rightarrow> bool" where
  "startsWith s p \<longleftrightarrow> take (length p) s = p"

definition substring :: "string \<Rightarrow> nat \<Rightarrow> string" where
  "substring s n = drop n s"

text \<open>
  The header is \<open>None\<close> when \<open>req.headers.authorization\<close> is \<open>undefined\<close>. The guard
  \<open>!authHeader\<close> is true for \<open>undefined\<close> and for the empty string. The result
  \<open>None\<close> is JavaScript's \<open>null\<close>.
\<close>

definition extractToken :: "string option \<Rightarrow> string option" where
  "extractToken authHeader =
     (case authHeader of
        None \<Rightarrow> None
      | Some h \<Rightarrow>
          if h = [] \<or> \<not> startsWith h ''Bearer '' then None
          else Some (trim (substring h 7)))"

section \<open>The token library behind generateToken and verifyToken\<close>

text \<open>
  The decoded payload of a token (the Identity Claim of the specification): the two
  attributes \<open>generateToken\<close> writes, an optional \<open>role\<close> attribute, and the two
  time stamps the library adds. Times are whole seconds of the wall clock.
\<close>

record payload =
  userId :: string
  username :: string
  role :: "string option"

record claim = payload +
  issuedAt :: int
  expiresAt :: int

text \<open>
  What is not modelled of the library is taken as a parameter: how a signed claim is
  written as an opaque string and read back (\<open>jwt_render\<close>, \<open>jwt_parse\<close>, with
  \<open>None\<close> for a string that has not the structure of a token), and the keyed signature
  of a claim (\<open>jwt_mac\<close>).
\<close>

record 'sig jwt_lib =
  jwt_render :: "claim \<Rightarrow> 'sig \<Rightarrow> string"
  jwt_parse :: "string \<Rightarrow> (claim \<times> 'sig) option"
  jwt_mac :: "string \<Rightarrow> claim \<Rightarrow> 'sig"

datatype jwt_error = JsonWebTokenError string | TokenExpiredError string

text \<open>
  Modelled from the spec: \<open>jwt.sign\<close> of the package \<open>jsonwebtoken\<close>, whose code is
  not part of the repository. The specification's \<open>issue\<close>: build the claim with \<open>issuedAt = now\<close> and
  \<open>expiresAt = now + lifetime\<close>, sign it with the secret, return the opaque token.
\<close>

definition jwt_sign :: "'sig jwt_lib \<Rightarrow> payload \<Rightarrow> string \<Rightarrow> int \<Rightarrow> int \<Rightarrow> string" where
  "jwt_sign J p secret expiresIn now =
     (let c = \<lparr>userId = userId p, username = username p, role = role p,
                issuedAt = now, expiresAt = now + expiresIn\<rparr>
      in jwt_render J c (jwt_mac J secret c))"

text \<open>
  Modelled from the spec: \<open>jwt.verify\<close> of the package \<open>jsonwebtoken\<close>, whose code
  is not part of the repository. The specification's \<open>verify\<close>: parse, check the signature, check the
  expiry; it fails if the structure is malformed, if the signature check fails, or if
  \<open>now \<ge> expiresAt\<close>. The library raises a different error in each case.
\<close>

definition jwt_verify :: "'sig jwt_lib \<Rightarrow> string \<Rightarrow> string \<Rightarrow> int \<Rightarrow> jwt_error + claim" where
  "jwt_verify J token secret now =
     (case jwt_parse J token of
        None \<Rightarrow> Inl (JsonWebTokenError ''jwt malformed'')
      | Some (c, s) \<Rightarrow>
          if s = jwt_mac J secret c
          then (if now \<ge> expiresAt c then Inl (TokenExpiredError ''jwt expired'') else Inr c)
          else Inl (JsonWebTokenError ''invalid signature''))"

section \<open>server/src/utils/auth.js: generateToken and verifyToken\<close>

text \<open>The user document handed to \<open>generateToken\<close>: its \<open>_id\<close> and \<open>username\<close>.\<close>

record user_doc =
  user_id :: string
  user_username :: string

text \<open>
  \<open>process.env.JWT_SECRET || 'default-secret-key'\<close>: the environment variable is
  \<open>None\<close> when unset, and the empty string is falsy.
\<close>

definition jwt_secret :: "string option \<Rightarrow> string" where
  "jwt_secret env =
     (case env of
        None \<Rightarrow> ''default-secret-key''
      | Some s \<Rightarrow> if s = [] then ''default-secret-key'' else s)"

text \<open>The option \<open>expiresIn: '7d'\<close>, in seconds.\<close>

definition seven_days :: int where
  "seven_days = 7 * 24 * 60 * 60"

definition generateToken :: "'sig jwt_lib \<Rightarrow> string option \<Rightarrow> int \<Rightarrow> user_doc \<Rightarrow> string" where
  "generateToken J env now u =
     jwt_sign J \<lparr>userId = user_id u, username = user_username u, role = None\<rparr>
       (jwt_secret env) seven_days now"

datatype js_error = Error string

text \<open>The \<open>catch\<close> replaces whatever the library raised by \<open>new Error('Invalid token')\<close>.\<close>

definition verifyToken :: "'sig jwt_lib \<Rightarrow> string option \<Rightarrow> int \<Rightarrow> string \<Rightarrow> js_error + claim" where
  "verifyToken J env now token =
     (case jwt_verify J token (jwt_secret env) now of
        Inl e \<Rightarrow> Inl (Error ''Invalid token'')
      | Inr decoded \<Rightarrow> Inr decoded)"

section \<open>server/src/middleware/requestLogger.js: authenticate and requireRole\<close>

text \<open>
  The file holds the module \<open>server/src/middleware/auth.js\<close>. The parts of the request
  the middleware reads and writes:
\<close>

record request =
  authorization :: "string option"
  user :: "claim option"

text \<open>
  \<open>!token\<close> is true for \<open>null\<close> and for the empty string. An error raised inside the
  \<open>try\<close> block is answered with 401 \<open>Invalid or expired token\<close>.
\<close>

definition authenticate :: "'sig jwt_lib \<Rightarrow> string option \<Rightarrow> int \<Rightarrow> request \<Rightarrow> outcome \<times> request" where
  "authenticate J env now req =
     (case extractToken (authorization req) of
        None \<Rightarrow> (Json 401 ''Access token required'', req)
      | Some token \<Rightarrow>
          if token = [] then (Json 401 ''Access token required'', req)
          else (case verifyToken J env now token of
                  Inl e \<Rightarrow> (Json 401 ''Invalid or expired token'', req)
                | Inr decoded \<Rightarrow> (Next, req\<lparr>user := Some decoded\<rparr>)))"

text \<open>
  \<open>!req.user || !req.user.role\<close>: the user is missing, or its role is \<open>undefined\<close> or
  the empty string.
\<close>

definition requireRole :: "string \<Rightarrow> request \<Rightarrow> outcome" where
  "requireRole requiredRole req =
     (case user req of
        None \<Rightarrow> Json 403 ''Role information not found''
      | Some u \<Rightarrow>
          (case role u of
             None \<Rightarrow> Json 403 ''Role information not found''
           | Some r \<Rightarrow>
               if r = [] then Json 403 ''Role information not found''
               else if r \<noteq> requiredRole then Json 403 ''Insufficient permissions''
               else Next))"

section \<open>server/src/middleware/requestLogger.js: rateLimit\<close>

text \<open>
  The closure's \<open>requests\<close> is a JavaScript \<open>Map\<close> from \<open>req.ip\<close> to an array of time
  stamps: an association list in insertion order, whose keys are distinct. Time stamps
  are \<open>Date.now()\<close>, whole milliseconds.
\<close>

type_synonym 'k requests = "('k \<times> int list) list"

text \<open>
  The loop \<open>for (const [ip, timestamps] of requests)\<close>: every entry is replaced by its
  time stamps newer than \<open>windowStart\<close>, and deleted when none is left.
\<close>

fun clean_old_entries :: "int \<Rightarrow> 'k requests \<Rightarrow> 'k requests" where
  "clean_old_entries windowStart [] = []"
| "clean_old_entries windowStart ((ip, timestamps) # rest) =
     (let kept = filter (\<lambda>timestamp. timestamp > windowStart) timestamps
      in if length kept = 0 then clean_old_entries windowStart rest
         else (ip, kept) # clean_old_entries windowStart rest)"

text \<open>\<open>requests.get(key) || []\<close>: the stored array, or a new empty one.\<close>

definition get_or_empty :: "'k requests \<Rightarrow> 'k \<Rightarrow> int list" where
  "get_or_empty requests key = (case map_of requests key of None \<Rightarrow> [] | Some ts \<Rightarrow> ts)"

text \<open>
  One call of the middleware \<open>rateLimit(maxRequests, windowMs)\<close> for \<open>key = req.ip\<close> at
  \<open>now = Date.now()\<close>, on the closure's \<open>requests\<close>; it returns the outcome and the
  \<open>requests\<close> it leaves. \<open>requests.set\<close> replaces the entry of a key in place or appends
  a new entry. Both parameters are whole numbers; when they are left out they are 100
  and \<open>15 * 60 * 1000\<close>.
\<close>

definition rateLimit :: "int \<Rightarrow> int \<Rightarrow> 'k requests \<Rightarrow> 'k \<Rightarrow> int \<Rightarrow> outcome \<times> 'k requests" where
  "rateLimit maxRequests windowMs requests key now =
     (let windowStart = now - windowMs;
          cleaned = clean_old_entries windowStart requests;
          userRequests = get_or_empty cleaned key
      in if int (length userRequests) \<ge> maxRequests
         then (Json 429 ''Too many requests'', cleaned)
         else (Next, AList.update key (userRequests @ [now]) cleaned))"

text \<open>
  A run of the middleware: the calls \<open>(req.ip, Date.now())\<close> in the order they are
  made, from the \<open>requests\<close> given. It returns the outcome of every call and the final
  \<open>requests\<close>. A new middleware starts from the empty \<open>Map\<close>.
\<close>

fun rateLimit_run :: "int \<Rightarrow> int \<Rightarrow> 'k requests \<Rightarrow> ('k \<times> int) list \<Rightarrow> outcome list \<times> 'k requests" where
  "rateLimit_run maxRequests windowMs requests [] = ([], requests)"
| "rateLimit_run maxRequests windowMs requests ((key, now) # calls) =
     (let (r, requests') = rateLimit maxRequests windowMs requests key now;
          (rs, final) = rateLimit_run maxRequests windowMs requests' calls
      in (r # rs, final))"

text \<open>
  The calls of a run whose key satisfies \<open>P\<close>, each with its outcome, in the order of
  the run.
\<close>

definition outcomes_for :: "('k \<Rightarrow> bool) \<Rightarrow> ('k \<times> int) list \<Rightarrow> outcome list \<Rightarrow> (('k \<times> int) \<times> outcome) list" where
  "outcomes_for P calls outs = filter (\<lambda>c. P (fst (fst c))) (zip calls outs)"

section \<open>server/src/utils/performance.js: PerformanceMonitor\<close>

text \<open>
  The monitor's state: the \<open>Map\<close> \<open>metrics\<close> from operation id to the recorded start,
  and what it has sent to the logger so far. \<open>process.hrtime.bigint()\<close> is a whole
  number of nanoseconds.
\<close>

record metric =
  startTime :: int
  operationId :: string

datatype level = LevelWarn | LevelDebug

datatype log_entry = Log level string | LogPerformance level string real

record monitor =
  metrics :: "string \<rightharpoonup> metric"
  logged :: "log_entry list"

text \<open>\<open>perfLogger.performance\<close>: the level is \<open>warn\<close> above 1000 ms, else \<open>debug\<close>.\<close>

definition performance :: "string \<Rightarrow> real \<Rightarrow> log_entry" where
  "performance operation duration =
     LogPerformance (if duration > 1000 then LevelWarn else LevelDebug) operation duration"

definition startTiming :: "string \<Rightarrow> int \<Rightarrow> monitor \<Rightarrow> monitor" where
  "startTiming opId now m =
     m\<lparr>metrics := (metrics m)(opId \<mapsto> \<lparr>startTime = now, operationId = opId\<rparr>)\<rparr>"

text \<open>
  \<open>endTiming\<close> returns \<open>undefined\<close> (\<open>None\<close>) after the warning when no start is
  recorded, else the duration in milliseconds, \<open>Number(endTime - startTime) / 1000000\<close>,
  taken as a real number.
\<close>

definition endTiming :: "string \<Rightarrow> int \<Rightarrow> monitor \<Rightarrow> real option \<times> monitor" where
  "endTiming opId now m =
     (case metrics m opId of
        None \<Rightarrow>
          (None, m\<lparr>logged := logged m @ [Log LevelWarn (''No timing started for operation: '' @ opId)]\<rparr>)
      | Some metric \<Rightarrow>
          (let endTime = now;
               duration = real_of_int (endTime - startTime metric) / 1000000
           in (Some duration,
               m\<lparr>logged := logged m @ [performance opId duration],
                 metrics := (metrics m)(opId := None)\<rparr>)))"

section \<open>Properties of extractToken\<close>

lemma trim_decomp:
  "\<exists>a b. r = a @ trim r @ b \<and> list_all is_js_space a \<and> list_all is_js_space b"
proof -
  let ?d = "dropWhile is_js_space r"
  let ?T = "takeWhile is_js_space (rev ?d)"
  let ?E = "dropWhile is_js_space (rev ?d)"
  have "rev ?d = ?T @ ?E" by simp
  then have "rev (rev ?d) = rev (?T @ ?E)" by (rule arg_cong [where f = rev])
  then have 2: "?d = trim r @ rev ?T" by (simp only: rev_rev_ident rev_append trim_def)
  have 3: "list_all is_js_space (takeWhile is_js_space r)"
    by (auto simp: list_all_iff dest: set_takeWhileD)
  have 4: "list_all is_js_space (rev ?T)"
    by (auto simp: list_all_iff dest: set_takeWhileD)
  have "r = takeWhile is_js_space r @ ?d" by simp
  also note 2
  finally have 5: "r = takeWhile is_js_space r @ trim r @ rev ?T" .
  show ?thesis
    apply (rule exI [where x = "takeWhile is_js_space r"])
    apply (rule exI [where x = "rev ?T"])
    using 3 4 5 apply (intro conjI)
      apply assumption+
    done
qed

lemma dropWhile_all_iff: "(\<forall>x\<in>set (dropWhile P xs). P x) \<longleftrightarrow> (\<forall>x\<in>set xs. P x)"
  by (induction xs) auto

lemma trim_Nil_iff: "trim r = [] \<longleftrightarrow> list_all is_js_space r"
  by (simp add: trim_def list_all_iff dropWhile_all_iff)

lemma trim_ends:
  assumes "trim r \<noteq> []"
  shows "\<not> is_js_space (hd (trim r))" "\<not> is_js_space (last (trim r))"
proof -
  let ?d = "dropWhile is_js_space r"
  let ?e = "dropWhile is_js_space (rev ?d)"
  from assms have e: "?e \<noteq> []" by (simp add: trim_def)
  have d: "?d \<noteq> []"
  proof
    assume "?d = []"
    then have "?e = []" by (simp only: rev.simps dropWhile.simps)
    with e show False by simp
  qed
  have "last (trim r) = hd ?e" using e by (simp only: trim_def last_rev)
  moreover have "\<not> is_js_space (hd ?e)" using e by (rule hd_dropWhile)
  ultimately show "\<not> is_js_space (last (trim r))" by simp
  have "hd (trim r) = last ?e" using e by (simp only: trim_def hd_rev)
  also have "\<dots> = last (takeWhile is_js_space (rev ?d) @ ?e)" using e
    by (rule last_appendR [symmetric])
  also have "\<dots> = last (rev ?d)" by (simp only: takeWhile_dropWhile_id)
  also have "\<dots> = hd ?d" using d by (simp only: last_rev)
  finally have "hd (trim r) = hd ?d" .
  moreover have "\<not> is_js_space (hd ?d)" using d by (rule hd_dropWhile)
  ultimately show "\<not> is_js_space (hd (trim r))" by simp
qed

lemma startsWith_Bearer: "startsWith h ''Bearer '' \<longleftrightarrow> (\<exists>r. h = ''Bearer '' @ r)"
proof
  assume "startsWith h ''Bearer ''"
  then have "take (length ''Bearer '') h = ''Bearer ''" by (simp only: startsWith_def)
  moreover have "take (length ''Bearer '') h @ drop (length ''Bearer '') h = h"
    by (rule append_take_drop_id)
  ultimately have "h = ''Bearer '' @ drop (length ''Bearer '') h" by simp
  then show "\<exists>r. h = ''Bearer '' @ r" ..
next
  assume "\<exists>r. h = ''Bearer '' @ r"
  then show "startsWith h ''Bearer ''" by (auto simp: startsWith_def)
qed

lemma extractToken_Bearer: "extractToken (Some (''Bearer '' @ r)) = Some (trim r)"
  by (simp add: extractToken_def startsWith_def substring_def)

lemma extractToken_None_iff:
  "extractToken h = None \<longleftrightarrow> (\<forall>r. h \<noteq> Some (''Bearer '' @ r))"
proof (cases h)
  case None
  then show ?thesis by (simp add: extractToken_def)
next
  case (Some s)
  show ?thesis
  proof (cases "startsWith s ''Bearer ''")
    case True
    then obtain r where "s = ''Bearer '' @ r" unfolding startsWith_Bearer ..
    with Some extractToken_Bearer [of r] show ?thesis by simp
  next
    case False
    then have "\<forall>r. s \<noteq> ''Bearer '' @ r" unfolding startsWith_Bearer by simp
    with False Some show ?thesis by (simp add: extractToken_def)
  qed
qed

lemmas js_eval = extractToken_def startsWith_def substring_def trim_def is_js_space_def

text \<open>
  C4. \<open>extractToken\<close> returns \<open>null\<close> exactly when the header is missing or does not
  begin with the case-sensitive prefix \<open>Bearer \<close>. For a header \<open>Bearer \<close> followed by
  \<open>r\<close> it returns \<open>r\<close> without its leading and trailing white space: a token that
  is non-empty exactly when \<open>r\<close> has a character that is not white space, and the empty
  string when \<open>r\<close> is white space only. \<open>Bearer abc123\<close> gives \<open>abc123\<close>,
  \<open>Bearer   padded   \<close> gives \<open>padded\<close>, and the empty header, \<open>Basic xyz\<close> and
  \<open>Bearer\<close> give \<open>null\<close>.
\<close>

theorem extractToken_shape:
  "(extractToken h = None \<longleftrightarrow> (\<forall>r. h \<noteq> Some (''Bearer '' @ r)))
   \<and> extractToken (Some (''Bearer '' @ r)) = Some (trim r)
   \<and> (\<exists>a b. r = a @ trim r @ b \<and> list_all is_js_space a \<and> list_all is_js_space b)
   \<and> (trim r \<noteq> [] \<longrightarrow> \<not> is_js_space (hd (trim r)) \<and> \<not> is_js_space (last (trim r)))
   \<and> (trim r = [] \<longleftrightarrow> list_all is_js_space r)
   \<and> extractToken (Some ''Bearer abc123'') = Some ''abc123''
   \<and> extractToken (Some ''Bearer   padded   '') = Some ''padded''
   \<and> extractToken (Some '''') = None
   \<and> extractToken (Some ''Basic xyz'') = None
   \<and> extractToken (Some ''Bearer'') = None"
proof (intro conjI)
  show "extractToken h = None \<longleftrightarrow> (\<forall>r. h \<noteq> Some (''Bearer '' @ r))"
    by (rule extractToken_None_iff)
  show "extractToken (Some (''Bearer '' @ r)) = Some (trim r)"
    by (rule extractToken_Bearer)
  show "\<exists>a b. r = a @ trim r @ b \<and> list_all is_js_space a \<and> list_all is_js_space b"
    by (rule trim_decomp)
  show "trim r \<noteq> [] \<longrightarrow> \<not> is_js_space (hd (trim r)) \<and> \<not> is_js_space (last (trim r))"
    using trim_ends by blast
  show "trim r = [] \<longleftrightarrow> list_all is_js_space r"
    by (rule trim_Nil_iff)
  show "extractToken (Some ''Bearer abc123'') = Some ''abc123''"
    by (simp add: js_eval)
  show "extractToken (Some ''Bearer   padded   '') = Some ''padded''"
    by (simp add: js_eval)
  show "extractToken (Some '''') = None"
    by (simp add: js_eval)
  show "extractToken (Some ''Basic xyz'') = None"
    by (simp add: js_eval)
  show "extractToken (Some ''Bearer'') = None"
    by (simp add: js_eval)
qed

theorem extractToken_shape_witness:
  "trim ''  tok en  '' = ''tok en''
   \<and> extractToken (Some ''Bearer   tok en  '') = Some ''tok en''
   \<and> extractToken (Some ''bearer abc'') = None"
  using extractToken_shape [of "Some ''bearer abc''" "''  tok en  ''"]
  by (simp add: js_eval)

text \<open>
  For the prefix followed by white space only the result is the empty string, not
  \<open>null\<close>.
\<close>

theorem extractToken_shape_counterexample:
  "extractToken (Some ''Bearer   '') = Some ''''"
  by (simp add: js_eval)

section \<open>Properties of generateToken and verifyToken\<close>

text \<open>
  C2. The token issued for a user at time \<open>t\<close>, verified while it has not expired (the
  library reads back the claim and the signature it has written), is accepted, and the
  decoded claim carries the user's \<open>_id\<close> as \<open>userId\<close> and its \<open>username\<close>, is issued
  at \<open>t\<close> and expires exactly 7 days after it is issued.
\<close>

theorem verify_generateToken:
  assumes "c = \<lparr>userId = user_id u, username = user_username u, role = None,
                 issuedAt = t, expiresAt = t + seven_days\<rparr>"
    and "jwt_parse J (jwt_render J c (jwt_mac J (jwt_secret env) c)) =
           Some (c, jwt_mac J (jwt_secret env) c)"
    and "now < t + seven_days"
  shows "verifyToken J env now (generateToken J env t u) = Inr c
       \<and> userId c = user_id u \<and> username c = user_username u
       \<and> issuedAt c = t \<and> expiresAt c = issuedAt c + 7 * 24 * 60 * 60"
proof -
  have g: "generateToken J env t u = jwt_render J c (jwt_mac J (jwt_secret env) c)"
    by (simp add: generateToken_def jwt_sign_def Let_def assms(1))
  have e: "\<not> expiresAt c \<le> now" using assms(3) by (simp add: assms(1))
  have "verifyToken J env now (generateToken J env t u) = Inr c"
    unfolding g by (simp add: verifyToken_def jwt_verify_def assms(2) e)
  then show ?thesis by (simp add: assms(1) seven_days_def)
qed

theorem verify_generateToken_witness:
  "verifyToken
     \<lparr>jwt_render = (\<lambda>c s. userId c @ ''.'' @ s),
       jwt_parse = (\<lambda>tok. if tok = ''42.default-secret-key/42''
          then Some (\<lparr>userId = ''42'', username = ''ann'', role = None,
                      issuedAt = 1000, expiresAt = 605800\<rparr>, ''default-secret-key/42'')
          else None),
       jwt_mac = (\<lambda>k c. k @ ''/'' @ userId c)\<rparr>
     None 2000
     (generateToken
        \<lparr>jwt_render = (\<lambda>c s. userId c @ ''.'' @ s),
       jwt_parse = (\<lambda>tok. if tok = ''42.default-secret-key/42''
          then Some (\<lparr>userId = ''42'', username = ''ann'', role = None,
                      issuedAt = 1000, expiresAt = 605800\<rparr>, ''default-secret-key/42'')
          else None),
       jwt_mac = (\<lambda>k c. k @ ''/'' @ userId c)\<rparr>
        None 1000 \<lparr>user_id = ''42'', user_username = ''ann''\<rparr>)
   = Inr \<lparr>userId = ''42'', username = ''ann'', role = None, issuedAt = 1000, expiresAt = 605800\<rparr>"
  using verify_generateToken [of
      "\<lparr>userId = ''42'', username = ''ann'', role = None, issuedAt = 1000, expiresAt = 605800\<rparr>"
      "\<lparr>user_id = ''42'', user_username = ''ann''\<rparr>" 1000
      "\<lparr>jwt_render = (\<lambda>c s. userId c @ ''.'' @ s),
       jwt_parse = (\<lambda>tok. if tok = ''42.default-secret-key/42''
          then Some (\<lparr>userId = ''42'', username = ''ann'', role = None,
                      issuedAt = 1000, expiresAt = 605800\<rparr>, ''default-secret-key/42'')
          else None),
       jwt_mac = (\<lambda>k c. k @ ''/'' @ userId c)\<rparr>"
      None 2000]
  by (simp add: jwt_secret_def seven_days_def)

text \<open>
  C3. \<open>verifyToken\<close> fails for a token that has not the structure of a token, for a
  token whose signature is not the one of its claim under the secret, and for a token
  whose \<open>expiresAt\<close> is not after the clock; and whenever it fails, the error is the one
  \<open>Error('Invalid token')\<close>, whatever the cause.
\<close>

theorem verifyToken_uniform:
  "(jwt_parse J token = None \<longrightarrow> verifyToken J env now token = Inl (Error ''Invalid token''))
   \<and> (\<forall>c s. jwt_parse J token = Some (c, s) \<and> s \<noteq> jwt_mac J (jwt_secret env) c \<longrightarrow>
         verifyToken J env now token = Inl (Error ''Invalid token''))
   \<and> (\<forall>c s. jwt_parse J token = Some (c, s) \<and> expiresAt c \<le> now \<longrightarrow>
         verifyToken J env now token = Inl (Error ''Invalid token''))
   \<and> (\<forall>e. verifyToken J env now token = Inl e \<longrightarrow> e = Error ''Invalid token'')"
  by (auto simp: verifyToken_def jwt_verify_def split: option.splits sum.splits if_splits)

theorem verifyToken_uniform_witness:
  "verifyToken
     \<lparr>jwt_render = (\<lambda>c s. userId c @ ''.'' @ s),
       jwt_parse = (\<lambda>tok.
          if tok = ''forged'' then Some (\<lparr>userId = ''42'', username = ''ann'', role = None,
                      issuedAt = 1000, expiresAt = 605800\<rparr>, ''bad'')
          else if tok = ''old'' then Some (\<lparr>userId = ''42'', username = ''ann'', role = None,
                      issuedAt = 0, expiresAt = 10\<rparr>, ''default-secret-key/42'')
          else None),
       jwt_mac = (\<lambda>k c. k @ ''/'' @ userId c)\<rparr>
     None 5000 ''garbage'' = Inl (Error ''Invalid token'')
   \<and> verifyToken
     \<lparr>jwt_render = (\<lambda>c s. userId c @ ''.'' @ s),
       jwt_parse = (\<lambda>tok.
          if tok = ''forged'' then Some (\<lparr>userId = ''42'', username = ''ann'', role = None,
                      issuedAt = 1000, expiresAt = 605800\<rparr>, ''bad'')
          else if tok = ''old'' then Some (\<lparr>userId = ''42'', username = ''ann'', role = None,
                      issuedAt = 0, expiresAt = 10\<rparr>, ''default-secret-key/42'')
          else None),
       jwt_mac = (\<lambda>k c. k @ ''/'' @ userId c)\<rparr>
     None 5000 ''forged'' = Inl (Error ''Invalid token'')
   \<and> verifyToken
     \<lparr>jwt_render = (\<lambda>c s. userId c @ ''.'' @ s),
       jwt_parse = (\<lambda>tok.
          if tok = ''forged'' then Some (\<lparr>userId = ''42'', username = ''ann'', role = None,
                      issuedAt = 1000, expiresAt = 605800\<rparr>, ''bad'')
          else if tok = ''old'' then Some (\<lparr>userId = ''42'', username = ''ann'', role = None,
                      issuedAt = 0, expiresAt = 10\<rparr>, ''default-secret-key/42'')
          else None),
       jwt_mac = (\<lambda>k c. k @ ''/'' @ userId c)\<rparr>
     None 5000 ''old'' = Inl (Error ''Invalid token'')"
  (is "verifyToken ?J None 5000 ''garbage'' = ?e \<and> _")
proof -
  let ?c1 = "\<lparr>userId = ''42'', username = ''ann'', role = None,
              issuedAt = 1000, expiresAt = 605800\<rparr>"
  let ?c2 = "\<lparr>userId = ''42'', username = ''ann'', role = None,
              issuedAt = 0, expiresAt = 10\<rparr>"
  have g: "jwt_parse ?J ''garbage'' = None" by simp
  have f: "jwt_parse ?J ''forged'' = Some (?c1, ''bad'') \<and> ''bad'' \<noteq> jwt_mac ?J (jwt_secret None) ?c1"
    by (simp add: jwt_secret_def)
  have  o: "jwt_parse ?J ''old'' = Some (?c2, ''default-secret-key/42'') \<and> expiresAt ?c2 \<le> 5000"
    by simp
  note u = verifyToken_uniform [where J = ?J and env = None and now = 5000]
  have 1: "verifyToken ?J None 5000 ''garbage'' = ?e"
    by (rule u [THEN conjunct1, THEN mp, OF g])
  have 2: "verifyToken ?J None 5000 ''forged'' = ?e"
    by (rule u [THEN conjunct2, THEN conjunct1, THEN spec, THEN spec, THEN mp, OF f])
  have 3: "verifyToken ?J None 5000 ''old'' = ?e"
    by (rule u [THEN conjunct2, THEN conjunct2, THEN conjunct1, THEN spec, THEN spec, THEN mp, OF o])
  from 1 2 3 show ?thesis by (intro conjI)
qed

section \<open>Properties of authenticate and requireRole\<close>

text \<open>
  C10. For an \<open>Authorization\<close> header made of \<open>Bearer \<close> and white space only,
  \<open>extractToken\<close> gives the empty string and \<open>authenticate\<close> answers 401 with
  \<open>Access token required\<close>, not with \<open>Invalid or expired token\<close>, and leaves the
  request as it is.
\<close>

theorem authenticate_blank_bearer:
  assumes "authorization req = Some (''Bearer '' @ ws)" and "list_all is_js_space ws"
  shows "extractToken (authorization req) = Some ''''
       \<and> authenticate J env now req = (Json 401 ''Access token required'', req)"
proof -
  have "trim ws = []" using assms(2) by (simp only: trim_Nil_iff)
  then have "extractToken (authorization req) = Some []"
    by (simp only: assms(1) extractToken_Bearer)
  then show ?thesis by (simp add: authenticate_def)
qed

theorem authenticate_blank_bearer_witness:
  "authenticate \<lparr>jwt_render = (\<lambda>c s. s), jwt_parse = (\<lambda>t. None), jwt_mac = (\<lambda>k c. k)\<rparr> None 0
      \<lparr>authorization = Some ''Bearer    '', user = None\<rparr>
     = (Json 401 ''Access token required'', \<lparr>authorization = Some ''Bearer    '', user = None\<rparr>)"
  using authenticate_blank_bearer [of "\<lparr>authorization = Some ''Bearer    '', user = None\<rparr>" "''   ''"
      "\<lparr>jwt_render = (\<lambda>c s. s), jwt_parse = (\<lambda>t. None), jwt_mac = (\<lambda>k c. k)\<rparr>" None 0]
  by (simp add: is_js_space_def)

text \<open>
  C8. \<open>requireRole\<close> calls \<open>next()\<close> exactly when the user's role is non-empty and
  equal to the required role; it answers 403 \<open>Insufficient permissions\<close> exactly when
  the role is non-empty and differs from the required role; and it answers 403
  \<open>Role information not found\<close> exactly when there is no user, no role, or an empty
  role.
\<close>

theorem requireRole_cases:
  "(requireRole requiredRole req = Next \<longleftrightarrow>
      (\<exists>u. user req = Some u \<and> role u = Some requiredRole \<and> requiredRole \<noteq> []))
   \<and> (requireRole requiredRole req = Json 403 ''Insufficient permissions'' \<longleftrightarrow>
      (\<exists>u r. user req = Some u \<and> role u = Some r \<and> r \<noteq> [] \<and> r \<noteq> requiredRole))
   \<and> (requireRole requiredRole req = Json 403 ''Role information not found'' \<longleftrightarrow>
      (user req = None \<or> (\<exists>u. user req = Some u \<and> (role u = None \<or> role u = Some []))))"
  by (auto simp: requireRole_def split: option.splits)

theorem requireRole_cases_witness:
  "requireRole ''admin''
     \<lparr>authorization = None,
      user = Some \<lparr>userId = ''1'', username = ''ann'', role = Some ''admin'', issuedAt = 0, expiresAt = 10\<rparr>\<rparr> = Next
   \<and> requireRole ''admin''
     \<lparr>authorization = None,
      user = Some \<lparr>userId = ''1'', username = ''ann'', role = Some ''user'', issuedAt = 0, expiresAt = 10\<rparr>\<rparr>
     = Json 403 ''Insufficient permissions''
   \<and> requireRole ''admin''
     \<lparr>authorization = None,
      user = Some \<lparr>userId = ''1'', username = ''ann'', role = None, issuedAt = 0, expiresAt = 10\<rparr>\<rparr>
     = Json 403 ''Role information not found''"
  using requireRole_cases [of "''admin''" "\<lparr>authorization = None,
      user = Some \<lparr>userId = ''1'', username = ''ann'', role = Some ''admin'', issuedAt = 0, expiresAt = 10\<rparr>\<rparr>"]
    requireRole_cases [of "''admin''" "\<lparr>authorization = None,
      user = Some \<lparr>userId = ''1'', username = ''ann'', role = Some ''user'', issuedAt = 0, expiresAt = 10\<rparr>\<rparr>"]
    requireRole_cases [of "''admin''" "\<lparr>authorization = None,
      user = Some \<lparr>userId = ''1'', username = ''ann'', role = None, issuedAt = 0, expiresAt = 10\<rparr>\<rparr>"]
  by simp

text \<open>
  A role that is present but empty is answered \<open>Role information not found\<close>, against
  a different required role and against the empty required role alike.
\<close>

theorem requireRole_cases_counterexample:
  "requireRole ''admin''
     \<lparr>authorization = None,
      user = Some \<lparr>userId = ''1'', username = ''ann'', role = Some '''', issuedAt = 0, expiresAt = 10\<rparr>\<rparr>
     = Json 403 ''Role information not found''
   \<and> requireRole ''''
     \<lparr>authorization = None,
      user = Some \<lparr>userId = ''1'', username = ''ann'', role = Some '''', issuedAt = 0, expiresAt = 10\<rparr>\<rparr>
     = Json 403 ''Role information not found''"
  by (simp add: requireRole_def)

section \<open>Properties of the rate limiter\<close>

subsection \<open>The cleaning loop\<close>

lemma clean_Cons:
  "clean_old_entries ws ((ip, tss) # rest) =
     (if filter (\<lambda>t. ws < t) tss = [] then clean_old_entries ws rest
      else (ip, filter (\<lambda>t. ws < t) tss) # clean_old_entries ws rest)"
  by (simp add: Let_def)

lemma clean_keys: "fst ` set (clean_old_entries ws reqs) \<subseteq> fst ` set reqs"
proof (induction reqs)
  case Nil
  show ?case by simp
next
  case (Cons e rest)
  obtain ip tss where e: "e = (ip, tss)" by (cases e)
  from Cons show ?case unfolding e clean_Cons by auto
qed

lemma clean_distinct:
  "distinct (map fst reqs) \<Longrightarrow> distinct (map fst (clean_old_entries ws reqs))"
proof (induction reqs)
  case Nil
  show ?case by simp
next
  case (Cons e rest)
  obtain ip tss where e: "e = (ip, tss)" by (cases e)
  have "ip \<notin> fst ` set (clean_old_entries ws rest)"
    using Cons.prems clean_keys [of ws rest] unfolding e by auto
  with Cons show ?case unfolding e clean_Cons by auto
qed

lemma clean_entries:
  "(ip, ts) \<in> set (clean_old_entries ws reqs) \<Longrightarrow> ts \<noteq> [] \<and> (\<forall>t\<in>set ts. ws < t)"
proof (induction reqs)
  case Nil
  then show ?case by simp
next
  case (Cons e rest)
  obtain ip' tss where e: "e = (ip', tss)" by (cases e)
  show ?case
  proof (cases "filter (\<lambda>t. ws < t) tss = []")
    case True
    with Cons show ?thesis unfolding e clean_Cons by simp
  next
    case False
    with Cons.prems have "(ip, ts) = (ip', filter (\<lambda>t. ws < t) tss)
        \<or> (ip, ts) \<in> set (clean_old_entries ws rest)"
      unfolding e clean_Cons by simp
    then show ?thesis
    proof
      assume "(ip, ts) = (ip', filter (\<lambda>t. ws < t) tss)"
      with False show ?thesis by auto
    next
      assume "(ip, ts) \<in> set (clean_old_entries ws rest)"
      then show ?thesis by (rule Cons.IH)
    qed
  qed
qed

lemma map_of_clean:
  "distinct (map fst reqs) \<Longrightarrow>
   map_of (clean_old_entries ws reqs) k =
     (case map_of reqs k of
        None \<Rightarrow> None
      | Some ts \<Rightarrow> if filter (\<lambda>t. ws < t) ts = [] then None else Some (filter (\<lambda>t. ws < t) ts))"
proof (induction reqs)
  case Nil
  show ?case by simp
next
  case (Cons e rest)
  obtain ip tss where e: "e = (ip, tss)" by (cases e)
  have d: "distinct (map fst rest)" and n: "ip \<notin> fst ` set rest"
    using Cons.prems unfolding e by auto
  have c: "ip \<notin> fst ` set (clean_old_entries ws rest)"
    using n clean_keys [of ws rest] by auto
  show ?case
  proof (cases "k = ip")
    case True
    have "map_of (clean_old_entries ws rest) ip = None"
      using c by (simp add: map_of_eq_None_iff)
    with True show ?thesis unfolding e clean_Cons by simp
  next
    case False
    with Cons.IH [OF d] show ?thesis unfolding e clean_Cons by simp
  qed
qed

lemma get_clean:
  "distinct (map fst reqs) \<Longrightarrow>
   get_or_empty (clean_old_entries ws reqs) k = filter (\<lambda>t. ws < t) (get_or_empty reqs k)"
  by (simp add: get_or_empty_def map_of_clean split: option.splits)

lemma clean_id:
  "\<forall>e\<in>set reqs. snd e \<noteq> [] \<and> (\<forall>t\<in>set (snd e). ws < t) \<Longrightarrow> clean_old_entries ws reqs = reqs"
proof (induction reqs)
  case Nil
  show ?case by simp
next
  case (Cons e rest)
  obtain ip tss where e: "e = (ip, tss)" by (cases e)
  from Cons.prems have f: "filter (\<lambda>t. ws < t) tss = tss" and n: "tss \<noteq> []"
    unfolding e by auto
  from Cons.prems have "clean_old_entries ws rest = rest"
    by (intro Cons.IH) simp
  with f n show ?case unfolding e clean_Cons by simp
qed

lemma rateLimit_distinct:
  "distinct (map fst reqs) \<Longrightarrow> distinct (map fst (snd (rateLimit N W reqs k now)))"
  by (simp add: rateLimit_def Let_def clean_distinct distinct_update)

lemma rateLimit_outcome:
  "distinct (map fst reqs) \<Longrightarrow>
   fst (rateLimit N W reqs k now) =
     (if N \<le> int (length (filter (\<lambda>t. now - W < t) (get_or_empty reqs k)))
      then Json 429 ''Too many requests'' else Next)"
  by (simp add: rateLimit_def Let_def get_clean)

lemma rateLimit_window:
  "distinct (map fst reqs) \<Longrightarrow>
   get_or_empty (snd (rateLimit N W reqs k now)) k' =
     (if k' = k \<and> fst (rateLimit N W reqs k now) = Next
      then filter (\<lambda>t. now - W < t) (get_or_empty reqs k) @ [now]
      else filter (\<lambda>t. now - W < t) (get_or_empty reqs k'))"
proof -
  assume d: "distinct (map fst reqs)"
  let ?c = "clean_old_entries (now - W) reqs"
  have g: "\<And>v j. get_or_empty (AList.update k v ?c) j = (if j = k then v else get_or_empty ?c j)"
    by (simp add: get_or_empty_def update_conv')
  show ?thesis
    by (simp add: rateLimit_def Let_def g get_clean [OF d])
qed

lemma set_alist_update: "set (AList.update k v al) \<subseteq> insert (k, v) (set al)"
  by (induction al) auto

lemmas rl_eval = rateLimit_def Let_def get_or_empty_def

subsection \<open>Runs of the middleware\<close>

lemma run_Cons:
  "rateLimit_run N W s ((k, now) # calls) =
     (fst (rateLimit N W s k now) # fst (rateLimit_run N W (snd (rateLimit N W s k now)) calls),
      snd (rateLimit_run N W (snd (rateLimit N W s k now)) calls))"
  by (simp add: case_prod_beta)

lemma run_append:
  "rateLimit_run N W s (xs @ ys) =
     (fst (rateLimit_run N W s xs) @ fst (rateLimit_run N W (snd (rateLimit_run N W s xs)) ys),
      snd (rateLimit_run N W (snd (rateLimit_run N W s xs)) ys))"
proof (induction xs arbitrary: s)
  case Nil
  show ?case by simp
next
  case (Cons c xs)
  obtain k now where c: "c = (k, now)" by (cases c)
  show ?case unfolding c append_Cons run_Cons Cons.IH by simp
qed

lemma run_length: "length (fst (rateLimit_run N W s calls)) = length calls"
proof (induction calls arbitrary: s)
  case Nil
  show ?case by simp
next
  case (Cons c calls)
  obtain k now where c: "c = (k, now)" by (cases c)
  show ?case unfolding c run_Cons by (simp add: Cons.IH)
qed

lemma run_distinct:
  "distinct (map fst s) \<Longrightarrow> distinct (map fst (snd (rateLimit_run N W s calls)))"
proof (induction calls arbitrary: s)
  case Nil
  then show ?case by simp
next
  case (Cons c calls)
  obtain k now where c: "c = (k, now)" by (cases c)
  show ?case unfolding c run_Cons snd_conv
    by (rule Cons.IH) (rule rateLimit_distinct [OF Cons.prems])
qed

text \<open>
  A burst of calls for one key, all inside one window, from a window whose time stamps
  are inside that window too: calls are let through until the window holds \<open>N\<close> time
  stamps.
\<close>

lemma burst:
  assumes "distinct (map fst s)"
    and "\<forall>p\<in>set (get_or_empty s key). \<forall>t\<in>set ts. t - W < p"
    and "\<forall>t\<in>set ts. \<forall>t'\<in>set ts. t - W < t'"
  shows "fst (rateLimit_run (int N) W s (map (Pair key) ts)) =
           replicate (min (length ts) (N - length (get_or_empty s key))) Next @
           replicate (length ts - (N - length (get_or_empty s key))) (Json 429 ''Too many requests'')
         \<and> set (get_or_empty (snd (rateLimit_run (int N) W s (map (Pair key) ts))) key)
             \<subseteq> set (get_or_empty s key) \<union> set ts"
  using assms
proof (induction ts arbitrary: s)
  case Nil
  show ?case by simp
next
  case (Cons t ts)
  let ?g = "get_or_empty s key"
  let ?s' = "snd (rateLimit (int N) W s key t)"
  have keep: "filter (\<lambda>x. t - W < x) ?g = ?g"
    using Cons.prems(2) by (auto simp: filter_id_conv)
  have d': "distinct (map fst ?s')" by (rule rateLimit_distinct [OF Cons.prems(1)])
  have out: "fst (rateLimit (int N) W s key t) =
      (if N \<le> length ?g then Json 429 ''Too many requests'' else Next)"
    by (simp add: rateLimit_outcome [OF Cons.prems(1)] keep)
  have win: "get_or_empty ?s' key = (if N \<le> length ?g then ?g else ?g @ [t])"
    by (simp add: rateLimit_window [OF Cons.prems(1)] out keep)
  have p2: "\<forall>p\<in>set (get_or_empty ?s' key). \<forall>t'\<in>set ts. t' - W < p"
    using Cons.prems(2,3) by (auto simp: win)
  have p3: "\<forall>t\<in>set ts. \<forall>t'\<in>set ts. t - W < t'"
    using Cons.prems(3) by auto
  note IH = Cons.IH [OF d' p2 p3]
  show ?case
  proof (cases "N \<le> length ?g")
    case True
    with IH out win have "fst (rateLimit_run (int N) W s (map (Pair key) (t # ts))) =
           replicate (min (length (t # ts)) (N - length ?g)) Next @
           replicate (length (t # ts) - (N - length ?g)) (Json 429 ''Too many requests'')"
      unfolding list.map run_Cons by (simp add: replicate_append_same)
    moreover from True IH win
    have "set (get_or_empty (snd (rateLimit_run (int N) W s (map (Pair key) (t # ts)))) key)
             \<subseteq> set ?g \<union> set (t # ts)"
      unfolding list.map run_Cons by auto
    ultimately show ?thesis by (rule conjI)
  next
    case False
    then have m: "min (Suc (length ts)) (N - length ?g) = Suc (min (length ts) (N - Suc (length ?g)))"
      by (simp add: min_def) arith
    have l: "Suc (length ts) - (N - length ?g) = length ts - (N - Suc (length ?g))"
      using False by simp
    from False IH out win have "fst (rateLimit_run (int N) W s (map (Pair key) (t # ts))) =
           replicate (min (length (t # ts)) (N - length ?g)) Next @
           replicate (length (t # ts) - (N - length ?g)) (Json 429 ''Too many requests'')"
      unfolding list.map run_Cons by (simp add: m l)
    moreover from False IH win
    have "set (get_or_empty (snd (rateLimit_run (int N) W s (map (Pair key) (t # ts)))) key)
             \<subseteq> set ?g \<union> set (t # ts)"
      unfolding list.map run_Cons by auto
    ultimately show ?thesis by (rule conjI)
  qed
qed

text \<open>
  C1. From \<open>requests\<close> with no entry for the key, with \<open>maxRequests = N\<close> at least 1: of
  \<open>N + 1\<close> calls for the key whose time stamps are pairwise less than \<open>windowMs\<close> apart,
  exactly the first \<open>N\<close> call \<open>next()\<close> and the last is answered 429 with
  \<open>Too many requests\<close>; a further call for the key, at least \<open>windowMs\<close> after every call
  of the burst, calls \<open>next()\<close> again.
\<close>

theorem rateLimit_burst:
  assumes "distinct (map fst requests)"
    and "map_of requests key = None"
    and "length ts = Suc N"
    and "\<forall>t\<in>set ts. \<forall>t'\<in>set ts. t - t' < W"
    and "\<forall>t\<in>set ts. t + W \<le> later"
    and "1 \<le> N"
  shows "fst (rateLimit_run (int N) W requests (map (Pair key) ts @ [(key, later)])) =
           replicate N Next @ [Json 429 ''Too many requests'', Next]"
proof -
  let ?s = "snd (rateLimit_run (int N) W requests (map (Pair key) ts))"
  have g: "get_or_empty requests key = []"
    using assms(2) by (simp add: get_or_empty_def)
  have b2: "\<forall>p\<in>set (get_or_empty requests key). \<forall>t\<in>set ts. t - W < p"
    by (simp add: g)
  have b3: "\<forall>t\<in>set ts. \<forall>t'\<in>set ts. t - W < t'"
    using assms(4) by fastforce
  note b = burst [OF assms(1) b2 b3, of N]
  have outs: "fst (rateLimit_run (int N) W requests (map (Pair key) ts)) =
      replicate N Next @ [Json 429 ''Too many requests'']"
    using b assms(3) by (simp add: g)
  have sub: "set (get_or_empty ?s key) \<subseteq> set ts"
    using b by (simp add: g)
  have stale: "filter (\<lambda>t. later - W < t) (get_or_empty ?s key) = []"
    using sub assms(5) by (fastforce simp: filter_empty_conv)
  have d: "distinct (map fst ?s)" by (rule run_distinct [OF assms(1)])
  have last: "fst (rateLimit (int N) W ?s key later) = Next"
    using assms(6) by (simp add: rateLimit_outcome [OF d] stale)
  show ?thesis
    unfolding run_append run_Cons fst_conv outs last by simp
qed

theorem rateLimit_burst_witness:
  "fst (rateLimit_run 2 1000 []
         [(''127.0.0.1'', 0), (''127.0.0.1'', 400), (''127.0.0.1'', 999), (''127.0.0.1'', 2000)]) =
     [Next, Next, Json 429 ''Too many requests'', Next]"
  using rateLimit_burst [of "[]" "''127.0.0.1''" "[0, 400, 999]" 2 1000 2000]
  by (simp add: numeral_2_eq_2)

text \<open>
  With \<open>maxRequests = 0\<close> the burst is one call, which is answered 429, and the call made
  after the window has passed is answered 429 as well.
\<close>

theorem rateLimit_burst_counterexample:
  "fst (rateLimit_run 0 1000 [] [(''127.0.0.1'', 0), (''127.0.0.1'', 2000)]) =
     [Json 429 ''Too many requests'', Json 429 ''Too many requests'']"
  by (simp add: rl_eval)

subsection \<open>What a call leaves in the Map\<close>

text \<open>
  C5. With a positive \<open>windowMs\<close>, after a call at \<open>now\<close>, whatever its outcome, every
  entry of \<open>requests\<close> has a non-empty array of time stamps, all newer than
  \<open>now - windowMs\<close>.
\<close>

theorem rateLimit_retained:
  assumes "0 < W"
  shows "\<forall>e\<in>set (snd (rateLimit N W requests key now)).
           snd e \<noteq> [] \<and> (\<forall>t\<in>set (snd e). now - W < t)"
proof
  fix e
  assume e: "e \<in> set (snd (rateLimit N W requests key now))"
  let ?c = "clean_old_entries (now - W) requests"
  let ?u = "get_or_empty ?c key"
  have c: "\<And>ip ts. (ip, ts) \<in> set ?c \<Longrightarrow> ts \<noteq> [] \<and> (\<forall>t\<in>set ts. now - W < t)"
    by (rule clean_entries)
  have u: "\<forall>t\<in>set ?u. now - W < t"
  proof (cases "map_of ?c key")
    case None
    then show ?thesis by (simp add: get_or_empty_def)
  next
    case (Some ts)
    then have "(key, ts) \<in> set ?c" by (rule map_of_SomeD)
    with c Some show ?thesis by (simp add: get_or_empty_def)
  qed
  from e have "e \<in> set ?c \<or> e = (key, ?u @ [now])"
    using set_alist_update [of key "?u @ [now]" ?c]
    by (auto simp: rateLimit_def Let_def split: if_splits)
  then show "snd e \<noteq> [] \<and> (\<forall>t\<in>set (snd e). now - W < t)"
  proof
    assume "e \<in> set ?c"
    then have "(fst e, snd e) \<in> set ?c" by simp
    then show ?thesis by (rule c)
  next
    assume "e = (key, ?u @ [now])"
    with u assms show ?thesis by auto
  qed
qed

theorem rateLimit_retained_witness:
  "snd (rateLimit 2 1000 [(''10.0.0.1'', [0, 900]), (''10.0.0.2'', [100])] ''10.0.0.1'' 1500) =
     [(''10.0.0.1'', [900, 1500])]
   \<and> list_all (\<lambda>e. snd e \<noteq> [] \<and> list_all (\<lambda>t. 1500 - 1000 < t) (snd e))
        (snd (rateLimit 2 1000 [(''10.0.0.1'', [0, 900]), (''10.0.0.2'', [100])] ''10.0.0.1'' 1500))"
  using rateLimit_retained [of 1000 2 "[(''10.0.0.1'', [0, 900]), (''10.0.0.2'', [100])]" "''10.0.0.1''" 1500]
  by (simp add: rl_eval)

text \<open>
  With \<open>windowMs = 0\<close> the call is let through and its own time stamp is stored, which
  is not newer than \<open>now - 0\<close>.
\<close>

theorem rateLimit_retained_counterexample:
  "rateLimit 1 0 [] ''10.0.0.1'' 5 = (Next, [(''10.0.0.1'', [5])]) \<and> \<not> (5 - 0 < (5::int))"
  by (simp add: rl_eval)

text \<open>
  C6. A call for \<open>key\<close> at \<open>now\<close> evicts the time stamps that are not newer than
  \<open>now - windowMs\<close> from the entry of every key, and deletes the entries left empty;
  the entries of the keys other than \<open>key\<close> are changed in no other way, and the entry
  of \<open>key\<close> itself is changed in no other way but that \<open>now\<close> is appended to it when the
  call is let through. A call that is answered 429 changes \<open>requests\<close> by this eviction
  only; where every stored array is non-empty and holds no such time stamp, it leaves
  \<open>requests\<close> as it was.
\<close>

theorem rateLimit_frame:
  assumes "distinct (map fst requests)"
  shows "(\<forall>k. k \<noteq> key \<longrightarrow>
            map_of (snd (rateLimit N W requests key now)) k =
              (case map_of requests k of
                 None \<Rightarrow> None
               | Some ts \<Rightarrow> if filter (\<lambda>t. now - W < t) ts = [] then None
                            else Some (filter (\<lambda>t. now - W < t) ts)))
       \<and> map_of (snd (rateLimit N W requests key now)) key =
            (if fst (rateLimit N W requests key now) = Next
             then Some (filter (\<lambda>t. now - W < t) (get_or_empty requests key) @ [now])
             else (case map_of requests key of
                     None \<Rightarrow> None
                   | Some ts \<Rightarrow> if filter (\<lambda>t. now - W < t) ts = [] then None
                                else Some (filter (\<lambda>t. now - W < t) ts)))
       \<and> (fst (rateLimit N W requests key now) \<noteq> Next \<longrightarrow>
            snd (rateLimit N W requests key now) = clean_old_entries (now - W) requests)
       \<and> (fst (rateLimit N W requests key now) \<noteq> Next \<and>
            (\<forall>e\<in>set requests. snd e \<noteq> [] \<and> (\<forall>t\<in>set (snd e). now - W < t)) \<longrightarrow>
            snd (rateLimit N W requests key now) = requests)"
proof (intro conjI allI impI)
  fix k :: 'a
  assume "k \<noteq> key"
  then have "map_of (snd (rateLimit N W requests key now)) k =
      map_of (clean_old_entries (now - W) requests) k"
    by (simp add: rateLimit_def Let_def update_conv')
  then show "map_of (snd (rateLimit N W requests key now)) k =
              (case map_of requests k of
                 None \<Rightarrow> None
               | Some ts \<Rightarrow> if filter (\<lambda>t. now - W < t) ts = [] then None
                            else Some (filter (\<lambda>t. now - W < t) ts))"
    by (simp only: map_of_clean [OF assms])
next
  let ?c = "clean_old_entries (now - W) requests"
  let ?old = "case map_of requests key of
                None \<Rightarrow> None
              | Some ts \<Rightarrow> if filter (\<lambda>t. now - W < t) ts = [] then None
                           else Some (filter (\<lambda>t. now - W < t) ts)"
  show "map_of (snd (rateLimit N W requests key now)) key =
          (if fst (rateLimit N W requests key now) = Next
           then Some (filter (\<lambda>t. now - W < t) (get_or_empty requests key) @ [now])
           else ?old)"
  proof (cases "N \<le> int (length (get_or_empty ?c key))")
    case True
    then have "rateLimit N W requests key now = (Json 429 ''Too many requests'', ?c)"
      by (simp add: rateLimit_def Let_def)
    then show ?thesis by (simp add: map_of_clean [OF assms])
  next
    case False
    then have "rateLimit N W requests key now =
        (Next, AList.update key (get_or_empty ?c key @ [now]) ?c)"
      by (simp add: rateLimit_def Let_def)
    then show ?thesis by (simp add: update_conv' get_clean [OF assms])
  qed
next
  assume "fst (rateLimit N W requests key now) \<noteq> Next"
  then show "snd (rateLimit N W requests key now) = clean_old_entries (now - W) requests"
    by (simp add: rateLimit_def Let_def split: if_splits)
next
  assume a: "fst (rateLimit N W requests key now) \<noteq> Next \<and>
            (\<forall>e\<in>set requests. snd e \<noteq> [] \<and> (\<forall>t\<in>set (snd e). now - W < t))"
  then have "clean_old_entries (now - W) requests = requests" by (intro clean_id) simp
  moreover from a have "snd (rateLimit N W requests key now) = clean_old_entries (now - W) requests"
    by (simp add: rateLimit_def Let_def split: if_splits)
  ultimately show "snd (rateLimit N W requests key now) = requests" by simp
qed

theorem rateLimit_frame_witness:
  "map_of (snd (rateLimit 1 10 [(''10.0.0.1'', [0, 5]), (''10.0.0.2'', [8])] ''10.0.0.2'' 12)) ''10.0.0.1''
     = Some [5]
   \<and> snd (rateLimit 1 10 [(''10.0.0.1'', [0, 5]), (''10.0.0.2'', [8])] ''10.0.0.2'' 12)
     = clean_old_entries 2 [(''10.0.0.1'', [0, 5]), (''10.0.0.2'', [8])]
   \<and> rateLimit 1 10 [(''10.0.0.1'', [5]), (''10.0.0.2'', [8])] ''10.0.0.2'' 12
     = (Json 429 ''Too many requests'', [(''10.0.0.1'', [5]), (''10.0.0.2'', [8])])
   \<and> map_of (snd (rateLimit 2 10 [(''10.0.0.1'', [0, 5]), (''10.0.0.2'', [1, 8])] ''10.0.0.2'' 12))
        ''10.0.0.2''
     = Some [8, 12]"
  using rateLimit_frame [of "[(''10.0.0.1'', [0, 5]), (''10.0.0.2'', [8])]" "''10.0.0.2''" 1 10 12]
    rateLimit_frame [of "[(''10.0.0.1'', [0, 5]), (''10.0.0.2'', [1, 8])]" "''10.0.0.2''" 2 10 12]
    rateLimit_frame [of "[(''10.0.0.1'', [5]), (''10.0.0.2'', [8])]" "''10.0.0.2''" 1 10 12]
  by (simp add: rl_eval)

text \<open>
  A call for one key that is answered 429 deletes the entry of another key, whose only
  time stamp has left the window.
\<close>

theorem rateLimit_frame_counterexample:
  "rateLimit 1 10 [(''10.0.0.1'', [0]), (''10.0.0.2'', [8])] ''10.0.0.2'' 12 =
     (Json 429 ''Too many requests'', [(''10.0.0.2'', [8])])"
  by (simp add: rl_eval)

subsection \<open>Keys do not interfere\<close>

lemma filter_window_mono:
  "\<tau> \<le> now \<Longrightarrow>
   filter (\<lambda>t. now - W < t) (filter (\<lambda>t. \<tau> - W < t) xs) = filter (\<lambda>t. now - W < (t::int)) xs"
  by (induction xs) auto

lemma window_rel_mono:
  assumes "\<tau> \<le> now"
    and "filter (\<lambda>t. \<tau> - W < t) xs = filter (\<lambda>t. \<tau> - W < (t::int)) ys"
  shows "filter (\<lambda>t. now - W < t) xs = filter (\<lambda>t. now - W < t) ys"
proof -
  have "filter (\<lambda>t. now - W < t) (filter (\<lambda>t. \<tau> - W < t) xs) =
        filter (\<lambda>t. now - W < t) (filter (\<lambda>t. \<tau> - W < t) ys)"
    by (simp only: assms(2))
  then show ?thesis by (simp only: filter_window_mono [OF assms(1)])
qed

lemma outcomes_for_Cons:
  "outcomes_for P (c # calls) (r # rs) =
     (if P (fst c) then (c, r) # outcomes_for P calls rs else outcomes_for P calls rs)"
  by (simp add: outcomes_for_def)

lemma other_keys_simulation:
  assumes "distinct (map fst s1)" and "distinct (map fst s2)"
    and "\<forall>k. k \<noteq> A \<longrightarrow>
           filter (\<lambda>t. \<tau> - W < t) (get_or_empty s1 k) = filter (\<lambda>t. \<tau> - W < t) (get_or_empty s2 k)"
    and "sorted (map snd calls)"
    and "\<forall>c\<in>set calls. \<tau> \<le> snd c"
  shows "map snd (outcomes_for (\<lambda>k. k \<noteq> A) calls (fst (rateLimit_run N W s1 calls))) =
         fst (rateLimit_run N W s2 (filter (\<lambda>c. fst c \<noteq> A) calls))"
  using assms
proof (induction calls arbitrary: s1 s2 \<tau>)
  case Nil
  show ?case by (simp add: outcomes_for_def)
next
  case (Cons c calls)
  obtain k now where c: "c = (k, now)" by (cases c)
  have le: "\<tau> \<le> now" using Cons.prems(5) by (simp add: c)
  have srt: "sorted (map snd calls)" and later: "\<forall>c\<in>set calls. now \<le> snd c"
    using Cons.prems(4) by (auto simp: c)
  have rel: "\<And>j. j \<noteq> A \<Longrightarrow>
      filter (\<lambda>t. now - W < t) (get_or_empty s1 j) = filter (\<lambda>t. now - W < t) (get_or_empty s2 j)"
    using Cons.prems(3) window_rel_mono [OF le] by blast
  let ?s1 = "snd (rateLimit N W s1 k now)"
  have d1: "distinct (map fst ?s1)" by (rule rateLimit_distinct [OF Cons.prems(1)])
  show ?case
  proof (cases "k = A")
    case True
    have r: "\<forall>j. j \<noteq> A \<longrightarrow>
        filter (\<lambda>t. now - W < t) (get_or_empty ?s1 j) = filter (\<lambda>t. now - W < t) (get_or_empty s2 j)"
      using rel True by (simp add: rateLimit_window [OF Cons.prems(1)])
    from Cons.IH [OF d1 Cons.prems(2) r srt later] True
    show ?thesis unfolding c run_Cons fst_conv outcomes_for_Cons
      by (simp add: run_Cons del: rateLimit_run.simps)
  next
    case False
    let ?s2 = "snd (rateLimit N W s2 k now)"
    have d2: "distinct (map fst ?s2)" by (rule rateLimit_distinct [OF Cons.prems(2)])
    have o: "fst (rateLimit N W s1 k now) = fst (rateLimit N W s2 k now)"
      by (simp add: rateLimit_outcome [OF Cons.prems(1)] rateLimit_outcome [OF Cons.prems(2)]
          rel [OF False])
    have w: "\<And>j. j \<noteq> A \<Longrightarrow> get_or_empty ?s1 j = get_or_empty ?s2 j"
      using rel [OF False]
      by (simp add: rateLimit_window [OF Cons.prems(1)] rateLimit_window [OF Cons.prems(2)]
          rel o)
    have r: "\<forall>j. j \<noteq> A \<longrightarrow>
        filter (\<lambda>t. now - W < t) (get_or_empty ?s1 j) = filter (\<lambda>t. now - W < t) (get_or_empty ?s2 j)"
      by (simp add: w)
    from Cons.IH [OF d1 d2 r srt later] False o
    show ?thesis unfolding c run_Cons fst_conv outcomes_for_Cons
      by (simp add: run_Cons del: rateLimit_run.simps)
  qed
qed

lemma outcomes_for_calls:
  "length outs = length calls \<Longrightarrow>
   map fst (outcomes_for P calls outs) = filter (\<lambda>c. P (fst c)) calls"
proof (induction calls arbitrary: outs)
  case Nil
  show ?case by (simp add: outcomes_for_def)
next
  case (Cons c calls)
  then obtain r rs where outs: "outs = r # rs" by (cases outs) auto
  with Cons show ?case by (simp add: outcomes_for_Cons)
qed

lemma lower_bound:
  "sorted (map snd calls) \<Longrightarrow> \<exists>\<tau>::int. \<forall>c\<in>set calls. \<tau> \<le> snd c"
proof (cases calls)
  case Nil
  then show ?thesis by simp
next
  case (Cons c cs)
  assume "sorted (map snd calls)"
  with Cons have "\<forall>c'\<in>set calls. snd c \<le> snd c'" by auto
  then show ?thesis ..
qed

lemma run_determined_by_others:
  assumes "distinct (map fst s)" and "sorted (map snd calls)"
  shows "outcomes_for (\<lambda>k. k \<noteq> A) calls (fst (rateLimit_run N W s calls)) =
         zip (filter (\<lambda>c. fst c \<noteq> A) calls)
             (fst (rateLimit_run N W s (filter (\<lambda>c. fst c \<noteq> A) calls)))"
proof -
  let ?l = "outcomes_for (\<lambda>k. k \<noteq> A) calls (fst (rateLimit_run N W s calls))"
  from lower_bound [OF assms(2)] obtain \<tau> where b: "\<forall>c\<in>set calls. \<tau> \<le> snd c" ..
  have 1: "map snd ?l = fst (rateLimit_run N W s (filter (\<lambda>c. fst c \<noteq> A) calls))"
    by (rule other_keys_simulation [OF assms(1) assms(1) _ assms(2) b]) simp
  have 2: "map fst ?l = filter (\<lambda>c. fst c \<noteq> A) calls"
    by (rule outcomes_for_calls) (rule run_length)
  have "?l = zip (map fst ?l) (map snd ?l)" by (simp only: zip_map_fst_snd)
  then show ?thesis unfolding 1 2 .
qed

text \<open>
  C7. Two runs from the same \<open>requests\<close>, each with time stamps that never decrease, which
  differ only in the calls made for key \<open>A\<close>, give every call for another key \<open>B\<close> the same
  outcome.
\<close>

theorem rateLimit_keys_independent:
  assumes "distinct (map fst requests)"
    and "sorted (map snd calls1)" and "sorted (map snd calls2)"
    and "filter (\<lambda>c. fst c \<noteq> A) calls1 = filter (\<lambda>c. fst c \<noteq> A) calls2"
    and "B \<noteq> A"
  shows "outcomes_for (\<lambda>k. k = B) calls1 (fst (rateLimit_run N W requests calls1)) =
         outcomes_for (\<lambda>k. k = B) calls2 (fst (rateLimit_run N W requests calls2))"
proof -
  have sub: "\<And>calls outs. outcomes_for (\<lambda>k. k = B) calls outs =
      filter (\<lambda>c. fst (fst c) = B) (outcomes_for (\<lambda>k. k \<noteq> A) calls outs)"
    using assms(5) by (auto simp: outcomes_for_def intro: filter_cong)
  have "outcomes_for (\<lambda>k. k \<noteq> A) calls1 (fst (rateLimit_run N W requests calls1)) =
        outcomes_for (\<lambda>k. k \<noteq> A) calls2 (fst (rateLimit_run N W requests calls2))"
    unfolding run_determined_by_others [OF assms(1) assms(2)]
      run_determined_by_others [OF assms(1) assms(3)] assms(4) ..
  then show ?thesis by (simp only: sub)
qed

theorem rateLimit_keys_independent_witness:
  "outcomes_for (\<lambda>k. k = ''10.0.0.2'')
     [(''10.0.0.1'', 0), (''10.0.0.2'', 1), (''10.0.0.1'', 2), (''10.0.0.1'', 3), (''10.0.0.2'', 4)]
     (fst (rateLimit_run 1 1000 []
        [(''10.0.0.1'', 0), (''10.0.0.2'', 1), (''10.0.0.1'', 2), (''10.0.0.1'', 3), (''10.0.0.2'', 4)]))
   = outcomes_for (\<lambda>k. k = ''10.0.0.2'')
     [(''10.0.0.2'', 1), (''10.0.0.2'', 4)]
     (fst (rateLimit_run 1 1000 [] [(''10.0.0.2'', 1), (''10.0.0.2'', 4)]))"
  using rateLimit_keys_independent [of "[]"
      "[(''10.0.0.1'', 0), (''10.0.0.2'', 1), (''10.0.0.1'', 2), (''10.0.0.1'', 3), (''10.0.0.2'', 4)]"
      "[(''10.0.0.2'', 1), (''10.0.0.2'', 4)]" "''10.0.0.1''" "''10.0.0.2''" 1 1000]
  by simp

text \<open>
  Without the order of the time stamps this fails: when the clock steps back, the sweep
  made by a call for one key evicts a time stamp that a later call for another key, made
  at an earlier time stamp, would still have counted. With \<open>rateLimit(1, 10)\<close>, the call
  for \<open>10.0.0.2\<close> at 105 is let through after a call for \<open>10.0.0.1\<close> at 200, and is
  answered 429 in the run without that call.
\<close>

theorem rateLimit_keys_independent_counterexample:
  "fst (rateLimit_run 1 10 [] [(''10.0.0.2'', 100), (''10.0.0.1'', 200), (''10.0.0.2'', 105)]) =
     [Next, Next, Next]
   \<and> fst (rateLimit_run 1 10 [] [(''10.0.0.2'', 100), (''10.0.0.2'', 105)]) =
     [Next, Json 429 ''Too many requests'']
   \<and> outcomes_for (\<lambda>k. k = ''10.0.0.2'')
        [(''10.0.0.2'', 100), (''10.0.0.1'', 200), (''10.0.0.2'', 105)]
        (fst (rateLimit_run 1 10 [] [(''10.0.0.2'', 100), (''10.0.0.1'', 200), (''10.0.0.2'', 105)]))
     \<noteq> outcomes_for (\<lambda>k. k = ''10.0.0.2'')
        [(''10.0.0.2'', 100), (''10.0.0.2'', 105)]
        (fst (rateLimit_run 1 10 [] [(''10.0.0.2'', 100), (''10.0.0.2'', 105)]))"
  by (simp add: rl_eval outcomes_for_def)

section \<open>Properties of the PerformanceMonitor\<close>

text \<open>
  C9. \<open>endTiming\<close> for an operation with a recorded start, not later than the clock,
  returns the elapsed time, which is not negative, and deletes the operation's entry
  only. For an operation with no recorded start it returns \<open>undefined\<close> and does
  nothing but log one warning. So \<open>startTiming\<close> followed by two \<open>endTiming\<close> calls for
  the same operation gives a duration that is not negative, then \<open>undefined\<close>.
\<close>

theorem endTiming_cases:
  "(metrics m opId = Some mt \<longrightarrow> startTime mt \<le> now \<longrightarrow>
      fst (endTiming opId now m) = Some (real_of_int (now - startTime mt) / 1000000)
      \<and> 0 \<le> real_of_int (now - startTime mt) / 1000000
      \<and> metrics (snd (endTiming opId now m)) = (metrics m)(opId := None))
   \<and> (metrics m opId = None \<longrightarrow>
      endTiming opId now m =
        (None, m\<lparr>logged := logged m @ [Log LevelWarn (''No timing started for operation: '' @ opId)]\<rparr>))
   \<and> (t0 \<le> t1 \<longrightarrow>
      fst (endTiming opId t1 (startTiming opId t0 m)) = Some (real_of_int (t1 - t0) / 1000000)
      \<and> 0 \<le> real_of_int (t1 - t0) / 1000000
      \<and> fst (endTiming opId t2 (snd (endTiming opId t1 (startTiming opId t0 m)))) = None)"
  by (simp add: endTiming_def startTiming_def Let_def)

theorem endTiming_cases_witness:
  "fst (endTiming ''op1'' 3500000 (startTiming ''op1'' 1000000 \<lparr>metrics = Map.empty, logged = []\<rparr>))
     = Some (5 / 2)
   \<and> fst (endTiming ''op1'' 4000000
        (snd (endTiming ''op1'' 3500000 (startTiming ''op1'' 1000000 \<lparr>metrics = Map.empty, logged = []\<rparr>))))
     = None
   \<and> endTiming ''op2'' 7 \<lparr>metrics = Map.empty, logged = []\<rparr>
     = (None, \<lparr>metrics = Map.empty,
               logged = [Log LevelWarn ''No timing started for operation: op2'']\<rparr>)"
  using endTiming_cases [of "startTiming ''op1'' 1000000 \<lparr>metrics = Map.empty, logged = []\<rparr>" "''op1''"
      "\<lparr>startTime = 1000000, operationId = ''op1''\<rparr>" 3500000 1000000 3500000 4000000]
    endTiming_cases [of "\<lparr>metrics = Map.empty, logged = []\<rparr>" "''op2''"
      "\<lparr>startTime = 0, operationId = ''op2''\<rparr>" 7 0 0 0]
  by (simp add: endTiming_def startTiming_def Let_def)

end
